theory Spec2Isabelle
  imports Complex_Main "HOL-Library.Word" "HOL-Library.AList"
begin

section \<open>JavaScript strings\<close>

text \<open>
  A JavaScript string is a sequence of UTF-16 code units, and \<^verbatim>\<open>s[i]\<close>,
  \<^verbatim>\<open>s.length\<close> and \<^verbatim>\<open>===\<close> on one-character strings work on code units.
  A string is therefore a list of 16-bit words. \<open>js\<close> writes a literal: it maps every
  character of an Isabelle string to the code unit of the same number.
\<close>

type_synonym jschar = "16 word"
type_synonym jsstring = "jschar list"

definition js :: "string \<Rightarrow> jsstring" where
  "js s = map of_char s"

definition dquote :: jschar where
  "dquote = 0x22"

definition comma :: jschar where
  "comma = 0x2C"

definition newline :: jschar where
  "newline = 0x0A"

definition creturn :: jschar where
  "creturn = 0x0D"

text \<open>
  \<^verbatim>\<open>String.prototype.trim\<close> removes the ECMAScript WhiteSpace and LineTerminator
  code points from both ends: TAB, LF, VT, FF, CR, SP, NBSP, U+1680, U+2000 to U+200A,
  LS, PS, U+202F, U+205F, U+3000 and the byte order mark. Each of them is one code unit.
\<close>

definition is_ws :: "jschar \<Rightarrow> bool" where
  "is_ws c \<longleftrightarrow>
     c \<in> {0x09, 0x0A, 0x0B, 0x0C, 0x0D, 0x20, 0xA0, 0x1680,
          0x2028, 0x2029, 0x202F, 0x205F, 0x3000, 0xFEFF}
     \<or> (0x2000 \<le> c \<and> c \<le> 0x200A)"

definition trim :: "jsstring \<Rightarrow> jsstring" where
  "trim s = rev (dropWhile is_ws (rev (dropWhile is_ws s)))"

text \<open>
  \<^verbatim>\<open>xs[i]\<close> on an array: the element, or \<^verbatim>\<open>undefined\<close> (here \<open>None\<close>)
  when the index is out of range.
\<close>

definition elemAt :: "'a list \<Rightarrow> nat \<Rightarrow> 'a option" where
  "elemAt xs i = (if i < length xs then Some (xs ! i) else None)"

text \<open>
  A Record is a JavaScript object with string keys. It is an association list in
  insertion order; \<^verbatim>\<open>obj[k] = v\<close> is \<open>AList.update k v obj\<close>, which replaces the
  value of a key that is present and appends a new key at the end. The properties below
  read a Record as its set of key/value pairs. The order in which JavaScript lists keys
  that look like array indices (before the others, in ascending order), and the key
  \<^verbatim>\<open>__proto__\<close>, which an assignment does not store as a property, are not
  modelled.
\<close>

type_synonym 'v jsobject = "(jsstring \<times> 'v) list"

datatype error =
    FetchFailed jsstring jsstring
  | ParseFailed jsstring
  | SyntaxError
  | TypeError


section \<open>CSV mode\<close>

subsection \<open>\<^verbatim>\<open>parseCSVRow\<close>\<close>

text \<open>
  The loop of \<^verbatim>\<open>parseCSVRow\<close> over the characters that are left of the row, with
  the loop variables \<^verbatim>\<open>values\<close>, \<^verbatim>\<open>current\<close> and \<^verbatim>\<open>inQuotes\<close>.
  \<^verbatim>\<open>row[i + 1] === '"'\<close> is \<open>next_is_quote\<close> of the rest (false at the end of the
  row, where \<^verbatim>\<open>row[i + 1]\<close> is \<^verbatim>\<open>undefined\<close>), and the \<^verbatim>\<open>i++\<close> of the
  escaped-quote branch drops the second quote. After the loop the last field is pushed.
\<close>

definition next_is_quote :: "jsstring \<Rightarrow> bool" where
  "next_is_quote cs = (case cs of [] \<Rightarrow> False | d # _ \<Rightarrow> d = dquote)"

fun rowLoop :: "jsstring \<Rightarrow> jsstring list \<Rightarrow> jsstring \<Rightarrow> bool \<Rightarrow> jsstring list" where
  "rowLoop [] values current inQuotes = values @ [current]"
| "rowLoop (c # cs) values current inQuotes =
     (if c = dquote then
        (if inQuotes \<and> next_is_quote cs
         then rowLoop (tl cs) values (current @ [dquote]) inQuotes
         else rowLoop cs values current (\<not> inQuotes))
      else if c = comma \<and> \<not> inQuotes then rowLoop cs (values @ [current]) [] inQuotes
      else rowLoop cs values (current @ [c]) inQuotes)"

definition parseCSVRow :: "jsstring \<Rightarrow> jsstring list" where
  "parseCSVRow row = rowLoop row [] [] False"

text \<open>
  \<^verbatim>\<open>parseCSVRow(lines[i])\<close>: reading \<^verbatim>\<open>row.length\<close> of \<^verbatim>\<open>undefined\<close> throws
  a TypeError.
\<close>

definition parseCSVRow_arg :: "jsstring option \<Rightarrow> error + jsstring list" where
  "parseCSVRow_arg row = (case row of None \<Rightarrow> Inl TypeError | Some r \<Rightarrow> Inr (parseCSVRow r))"

subsection \<open>\<^verbatim>\<open>parseCSV\<close>\<close>

text \<open>
  The tokenizing loop of \<^verbatim>\<open>parseCSV\<close>, with the loop variables \<^verbatim>\<open>lines\<close>,
  \<^verbatim>\<open>currentLine\<close> and \<^verbatim>\<open>inQuotes\<close>; it returns the lines and the current
  line as they are when the loop ends. \<^verbatim>\<open>currentLine.trim()\<close> is truthy when the
  trimmed line is not empty.
\<close>

fun lineLoop :: "jsstring \<Rightarrow> jsstring list \<Rightarrow> jsstring \<Rightarrow> bool \<Rightarrow> jsstring list \<times> jsstring" where
  "lineLoop [] lines currentLine inQuotes = (lines, currentLine)"
| "lineLoop (c # cs) lines currentLine inQuotes =
     (if c = dquote then
        (if inQuotes \<and> next_is_quote cs
         then lineLoop (tl cs) lines (currentLine @ [dquote]) inQuotes
         else lineLoop cs lines (currentLine @ [c]) (\<not> inQuotes))
      else if c = newline \<and> \<not> inQuotes then
        lineLoop cs (if trim currentLine \<noteq> [] then lines @ [currentLine] else lines) [] inQuotes
      else if c = creturn \<and> \<not> inQuotes then lineLoop cs lines currentLine inQuotes
      else lineLoop cs lines (currentLine @ [c]) inQuotes)"

text \<open>The lines of the text: the loop, then the push of a last line that is not blank.\<close>

definition csvLines :: "jsstring \<Rightarrow> jsstring list" where
  "csvLines csvText =
     (case lineLoop csvText [] [] False of
        (lines, currentLine) \<Rightarrow>
          if trim currentLine \<noteq> [] then lines @ [currentLine] else lines)"

text \<open>
  The inner loop over \<^verbatim>\<open>j\<close> from 0 to \<^verbatim>\<open>headers.length - 1\<close>, on the pair of
  \<^verbatim>\<open>obj\<close> and \<^verbatim>\<open>rowHasData\<close>. \<^verbatim>\<open>header\<close> is \<^verbatim>\<open>headers[j]?.trim()\<close>,
  truthy when it is a non-empty string; \<^verbatim>\<open>value\<close> is
  \<^verbatim>\<open>values[j]?.trim() ?? ''\<close>.
\<close>

definition colStep ::
  "jsstring list \<Rightarrow> jsstring list \<Rightarrow> nat \<Rightarrow> jsstring jsobject \<times> bool \<Rightarrow> jsstring jsobject \<times> bool" where
  "colStep headers values j st =
     (let header = map_option trim (elemAt headers j);
          value = (case map_option trim (elemAt values j) of None \<Rightarrow> [] | Some v \<Rightarrow> v)
      in case header of
           Some h \<Rightarrow> if h \<noteq> [] \<and> value \<noteq> [] then (AList.update h value (fst st), True) else st
         | None \<Rightarrow> st)"

definition buildRow :: "jsstring list \<Rightarrow> jsstring list \<Rightarrow> jsstring jsobject \<times> bool" where
  "buildRow headers values = fold (colStep headers values) [0..<length headers] ([], False)"

text \<open>\<^verbatim>\<open>values.some(v => v.trim() !== '')\<close>\<close>

definition hasData :: "jsstring list \<Rightarrow> bool" where
  "hasData values = list_ex (\<lambda>v. trim v \<noteq> []) values"

text \<open>
  The loop over the data rows, \<^verbatim>\<open>i\<close> from 1 while \<^verbatim>\<open>i < lines.length\<close>, on
  \<^verbatim>\<open>results\<close>.
\<close>

function dataLoop ::
  "jsstring list \<Rightarrow> jsstring list \<Rightarrow> nat \<Rightarrow> jsstring jsobject list \<Rightarrow> error + jsstring jsobject list" where
  "dataLoop lines headers i results =
     (if i < length lines then
        (case parseCSVRow_arg (elemAt lines i) of
           Inl e \<Rightarrow> Inl e
         | Inr values \<Rightarrow>
             if \<not> hasData values then dataLoop lines headers (i + 1) results
             else (case buildRow headers values of
                     (obj, rowHasData) \<Rightarrow>
                       dataLoop lines headers (i + 1)
                         (if rowHasData then results @ [obj] else results)))
      else Inr results)"
  by pat_completeness auto
termination
  by (relation "measure (\<lambda>(lines, headers, i, results). length lines - i)") auto

definition parseCSV :: "jsstring \<Rightarrow> error + jsstring jsobject list" where
  "parseCSV csvText =
     (let lines = csvLines csvText in
      if length lines < 2 then Inr []
      else (case parseCSVRow_arg (elemAt lines 0) of
              Inl e \<Rightarrow> Inl e
            | Inr headers \<Rightarrow> dataLoop lines headers 1 []))"

text \<open>
  \<^verbatim>\<open>fetchSheetData\<close> of the CSV variant: the response of \<^verbatim>\<open>fetch\<close> is either a
  rejection or a response with its \<^verbatim>\<open>ok\<close> flag, status text and body.
\<close>

record 'b response =
  ok :: bool
  statusText :: jsstring
  body :: 'b

definition fetchSheetData_csv ::
  "(jsstring \<Rightarrow> error + jsstring response) \<Rightarrow> jsstring \<Rightarrow> error + jsstring jsobject list" where
  "fetchSheetData_csv fetch sheetName =
     (case fetch sheetName of
        Inl e \<Rightarrow> Inl e
      | Inr response \<Rightarrow>
          if \<not> ok response then Inl (FetchFailed sheetName (statusText response))
          else parseCSV (body response))"


section \<open>Visualization-JSON mode\<close>

subsection \<open>The parsed table\<close>

text \<open>
  A cell value is \<^verbatim>\<open>undefined\<close> (the property is missing), \<^verbatim>\<open>null\<close>, a string, a
  number or a boolean. The extractor never computes with a number, so the type of
  numbers is left open. A cell has a raw value \<^verbatim>\<open>v\<close> and a formatted string
  \<^verbatim>\<open>f\<close>; an entry of the cell array \<^verbatim>\<open>c\<close> is a cell or \<^verbatim>\<open>null\<close> (\<open>None\<close>);
  a row whose \<^verbatim>\<open>c\<close> is missing or \<^verbatim>\<open>null\<close> has \<open>row_c = None\<close>; a column
  whose \<^verbatim>\<open>label\<close> is missing or \<^verbatim>\<open>null\<close> has \<open>label = None\<close>.
\<close>

datatype 'n jsval = Undefined | Null | Str jsstring | Num 'n | Bool bool

record 'n cell =
  cell_v :: "'n jsval"
  cell_f :: "'n jsval"

record 'n row =
  row_c :: "'n cell option list option"

record column =
  label :: "jsstring option"

record 'n table =
  cols :: "column list"
  rows :: "'n row list"

subsection \<open>\<^verbatim>\<open>fetchSheetData\<close> of \<^verbatim>\<open>src/scripts/build-report-data.ts\<close>\<close>

text \<open>
  An element of \<^verbatim>\<open>validCols\<close> is \<^verbatim>\<open>{ label: col.label?.trim(), index: i }\<close>: the
  label stays \<^verbatim>\<open>undefined\<close> when the column has none. The filter keeps the elements
  with \<^verbatim>\<open>col.label !== ''\<close>.
\<close>

record vcol = column +
  index :: nat

definition validCols :: "column list \<Rightarrow> vcol list" where
  "validCols cs =
     filter (\<lambda>col. label col \<noteq> Some [])
       (map (\<lambda>(i, col). \<lparr>label = map_option trim (label col), index = i\<rparr>) (enumerate 0 cs))"

text \<open>\<^verbatim>\<open>row.c[i]\<close>: \<^verbatim>\<open>undefined\<close> out of range and \<^verbatim>\<open>null\<close> are both \<open>None\<close>.\<close>

definition cellAt :: "'n cell option list \<Rightarrow> nat \<Rightarrow> 'n cell option" where
  "cellAt c i = (case elemAt c i of None \<Rightarrow> None | Some cl \<Rightarrow> cl)"

text \<open>
  The effective value
  \<^verbatim>\<open>cell?.v !== null && cell?.v !== undefined ? cell.v : (cell?.f ?? null)\<close>.
\<close>

definition effective :: "'n cell option \<Rightarrow> 'n jsval" where
  "effective cl =
     (case cl of
        None \<Rightarrow> Null
      | Some x \<Rightarrow>
          if cell_v x \<noteq> Null \<and> cell_v x \<noteq> Undefined then cell_v x
          else if cell_f x = Undefined \<or> cell_f x = Null then Null
          else cell_f x)"

text \<open>\<^verbatim>\<open>value === '' || value === null || value === undefined\<close>\<close>

definition isEmpty :: "'n jsval \<Rightarrow> bool" where
  "isEmpty val \<longleftrightarrow> val = Str [] \<or> val = Null \<or> val = Undefined"

text \<open>
  The key of \<^verbatim>\<open>obj[col.label]\<close>: a property key that is \<^verbatim>\<open>undefined\<close> is the
  string \<^verbatim>\<open>"undefined"\<close>.
\<close>

definition keyOf :: "jsstring option \<Rightarrow> jsstring" where
  "keyOf l = (case l of None \<Rightarrow> js ''undefined'' | Some k \<Rightarrow> k)"

text \<open>The loop over \<^verbatim>\<open>validCols\<close> that builds \<^verbatim>\<open>obj\<close> from the cells of a row.\<close>

definition objStep :: "'n cell option list \<Rightarrow> vcol \<Rightarrow> 'n jsval jsobject \<Rightarrow> 'n jsval jsobject" where
  "objStep c col obj =
     (let val = effective (cellAt c (index col))
      in if \<not> isEmpty val then AList.update (keyOf (label col)) val obj else obj)"

definition buildObj :: "vcol list \<Rightarrow> 'n cell option list \<Rightarrow> 'n jsval jsobject" where
  "buildObj vcs c = fold (objStep c) vcs []"

text \<open>
  The loop over \<^verbatim>\<open>table.rows\<close>. Its state is \<^verbatim>\<open>consecutiveEmpty\<close> and
  \<^verbatim>\<open>results\<close>; one pass of the body either goes on to the next row
  (\<^verbatim>\<open>continue\<close>, or the end of the body) or leaves the loop (\<^verbatim>\<open>break\<close>).
\<close>

definition MAX_CONSECUTIVE_EMPTY :: nat where
  "MAX_CONSECUTIVE_EMPTY = 10"

record 'n loop_state =
  consecutiveEmpty :: nat
  results :: "'n jsval jsobject list"

datatype 's ctl = Next 's | Break 's

fun state_of :: "'s ctl \<Rightarrow> 's" where
  "state_of (Next s) = s"
| "state_of (Break s) = s"

definition rowStep :: "vcol list \<Rightarrow> 'n loop_state \<Rightarrow> 'n row \<Rightarrow> 'n loop_state ctl" where
  "rowStep vcs st r =
     (case row_c r of
        None \<Rightarrow> Next st
      | Some c \<Rightarrow>
          (case vcs of
             [] \<Rightarrow> Next st
           | firstCol # _ \<Rightarrow>
               if isEmpty (effective (cellAt c (index firstCol))) then
                 (let st' = st\<lparr>consecutiveEmpty := consecutiveEmpty st + 1\<rparr>
                  in if consecutiveEmpty st' \<ge> MAX_CONSECUTIVE_EMPTY then Break st' else Next st')
               else
                 Next \<lparr>consecutiveEmpty = 0, results = results st @ [buildObj vcs c]\<rparr>))"

fun rowsLoop :: "vcol list \<Rightarrow> 'n loop_state \<Rightarrow> 'n row list \<Rightarrow> 'n loop_state ctl" where
  "rowsLoop vcs st [] = Next st"
| "rowsLoop vcs st (r # rs) =
     (case rowStep vcs st r of
        Break st' \<Rightarrow> Break st'
      | Next st' \<Rightarrow> rowsLoop vcs st' rs)"

text \<open>What \<^verbatim>\<open>fetchSheetData\<close> returns for a parsed table.\<close>

definition extractTable :: "'n table \<Rightarrow> 'n jsval jsobject list" where
  "extractTable t =
     (let vcs = validCols (cols t)
      in if length vcs = 0 then []
         else results (state_of (rowsLoop vcs \<lparr>consecutiveEmpty = 0, results = []\<rparr> (rows t))))"

text \<open>
  The response text is given by what the wrapper pattern and \<^verbatim>\<open>JSON.parse\<close> make
  of it: the pattern does not match, the matched text is not JSON, or it parses to an
  object with a table.
\<close>

datatype 'n payload = NoWrapper | BadJson | Wrapped "'n table"

definition fetchSheetData ::
  "(jsstring \<Rightarrow> error + 'n payload response) \<Rightarrow> jsstring \<Rightarrow> error + 'n jsval jsobject list" where
  "fetchSheetData fetch sheetName =
     (case fetch sheetName of
        Inl e \<Rightarrow> Inl e
      | Inr response \<Rightarrow>
          if \<not> ok response then Inl (FetchFailed sheetName (statusText response))
          else (case body response of
                  NoWrapper \<Rightarrow> Inl (ParseFailed sheetName)
                | BadJson \<Rightarrow> Inl SyntaxError
                | Wrapped t \<Rightarrow> Inr (extractTable t)))"

subsection \<open>The earlier \<^verbatim>\<open>fetchSheetData\<close> of the JSON export path\<close>

text \<open>
  \<^verbatim>\<open>headers\<close> is \<^verbatim>\<open>col.label || ''\<close> for every column. A row maps every cell whose
  header is truthy to \<^verbatim>\<open>cell?.v ?? ''\<close>; \<^verbatim>\<open>row.c.forEach\<close> throws a TypeError
  when \<^verbatim>\<open>row.c\<close> is missing.
\<close>

definition legacyHeaders :: "column list \<Rightarrow> jsstring list" where
  "legacyHeaders cs = map (\<lambda>col. case label col of None \<Rightarrow> [] | Some l \<Rightarrow> l) cs"

definition legacyValue :: "'n cell option \<Rightarrow> 'n jsval" where
  "legacyValue cl =
     (case cl of
        None \<Rightarrow> Str []
      | Some x \<Rightarrow> if cell_v x = Null \<or> cell_v x = Undefined then Str [] else cell_v x)"

definition legacyStep ::
  "jsstring list \<Rightarrow> nat \<times> 'n cell option \<Rightarrow> 'n jsval jsobject \<Rightarrow> 'n jsval jsobject" where
  "legacyStep headers ic obj =
     (case elemAt headers (fst ic) of
        None \<Rightarrow> obj
      | Some header \<Rightarrow> if header \<noteq> [] then AList.update header (legacyValue (snd ic)) obj else obj)"

definition legacyRow :: "jsstring list \<Rightarrow> 'n row \<Rightarrow> error + 'n jsval jsobject" where
  "legacyRow headers r =
     (case row_c r of
        None \<Rightarrow> Inl TypeError
      | Some c \<Rightarrow> Inr (fold (legacyStep headers) (enumerate 0 c) []))"

fun mapRows :: "('a \<Rightarrow> error + 'b) \<Rightarrow> 'a list \<Rightarrow> error + 'b list" where
  "mapRows g [] = Inr []"
| "mapRows g (x # xs) =
     (case g x of
        Inl e \<Rightarrow> Inl e
      | Inr y \<Rightarrow> (case mapRows g xs of Inl e \<Rightarrow> Inl e | Inr ys \<Rightarrow> Inr (y # ys)))"

definition extractTable_legacy :: "'n table \<Rightarrow> error + 'n jsval jsobject list" where
  "extractTable_legacy t = mapRows (legacyRow (legacyHeaders (cols t))) (rows t)"


section \<open>Snapshot Assembler\<close>

definition SHEET_NAMES :: "jsstring list" where
  "SHEET_NAMES =
     [js ''Locations Metadata'', js ''Yearly Funding Data'', js ''Quarterly Funding Data'',
      js ''Yearly Enterprise Value'', js ''Top Industries, Tags, Rounds'', js ''Top Rounds'',
      js ''Regional Comparison'']"

text \<open>
  \<^verbatim>\<open>Promise.all\<close> over the fetches: the list of the results when every fetch
  fulfils, a rejection when one of them rejects. Which rejection wins depends on timing;
  the model takes the first in the order of the list, and \<^verbatim>\<open>main\<close> treats every
  rejection alike.
\<close>

fun promiseAll :: "(error + 'a) list \<Rightarrow> error + 'a list" where
  "promiseAll [] = Inr []"
| "promiseAll (p # ps) =
     (case p of
        Inl e \<Rightarrow> Inl e
      | Inr x \<Rightarrow> (case promiseAll ps of Inl e \<Rightarrow> Inl e | Inr xs \<Rightarrow> Inr (x # xs)))"

text \<open>
  \<^verbatim>\<open>new Date()\<close>, by the three methods \<^verbatim>\<open>main\<close> calls on it;
  \<^verbatim>\<open>getMonth()\<close> is the month index, 0 for January.
\<close>

record date =
  getFullYear :: int
  getMonth :: nat
  toISOString :: jsstring

text \<open>
  The decimal digits of a number, as a template literal writes an integer below
  \<^verbatim>\<open>1e21\<close> in absolute value (the year and the quarter number are such).
\<close>

fun digits :: "nat \<Rightarrow> jsstring" where
  "digits n = (if n < 10 then [of_nat (48 + n)] else digits (n div 10) @ [of_nat (48 + n mod 10)])"

definition numberToString :: "int \<Rightarrow> jsstring" where
  "numberToString i = (if i < 0 then 0x2D # digits (nat (- i)) else digits (nat i))"

text \<open>\<^verbatim>\<open>Math.ceil((now.getMonth() + 1) / 3)\<close>\<close>

definition quarterNumber :: "date \<Rightarrow> int" where
  "quarterNumber now = \<lceil>(real (getMonth now) + 1) / 3\<rceil>"

text \<open>\<^verbatim>\<open>`${year}Q${quarterNumber}`\<close>\<close>

definition reportingQuarter :: "date \<Rightarrow> jsstring" where
  "reportingQuarter now =
     numberToString (getFullYear now) @ js ''Q'' @ numberToString (quarterNumber now)"

record meta =
  generated_at :: jsstring
  source_sheet_id :: jsstring
  reporting_quarter :: jsstring
  reporting_year :: int
  reporting_quarter_number :: int
  schema_version :: jsstring

text \<open>\<^verbatim>\<open>sheetsData[k]\<close> is \<^verbatim>\<open>undefined\<close> (\<open>None\<close>) when the array is too short.\<close>

record 'n sheets =
  locations :: "'n jsval jsobject list option"
  yearly_funding :: "'n jsval jsobject list option"
  quarterly_funding :: "'n jsval jsobject list option"
  yearly_ev :: "'n jsval jsobject list option"
  top_industries_tags :: "'n jsval jsobject list option"
  top_rounds :: "'n jsval jsobject list option"
  regional_comparison :: "'n jsval jsobject list option"

record config =
  map_enabled :: bool
  share_preview_enabled :: bool
  default_location_id :: jsstring

record 'n snapshot =
  snapshot_meta :: meta
  snapshot_sheets :: "'n sheets"
  snapshot_config :: config

text \<open>
  What a run of \<^verbatim>\<open>main\<close> depends on: the environment variable (\<open>None\<close> when it is
  not set), the answer of \<^verbatim>\<open>fetch\<close> for a sheet id and a sheet name (the two
  parts of the URL that vary), the clock, and the file system: whether \<^verbatim>\<open>public\<close>
  exists and whether \<^verbatim>\<open>mkdirSync\<close> and \<^verbatim>\<open>writeFileSync\<close> throw.
\<close>

record 'n env =
  SHEET_ID :: "jsstring option"
  fetch :: "jsstring \<Rightarrow> jsstring \<Rightarrow> error + 'n payload response"
  now :: date
  publicDirExists :: bool
  mkdirThrows :: bool
  writeThrows :: bool

text \<open>
  What a run does: the exit status of the process, and the snapshot that
  \<^verbatim>\<open>writeFileSync\<close> has written to \<^verbatim>\<open>public/report-data.json\<close>, if any.
\<close>

record 'n run =
  exitStatus :: nat
  written :: "'n snapshot option"

definition buildOutput :: "jsstring \<Rightarrow> date \<Rightarrow> 'n jsval jsobject list list \<Rightarrow> 'n snapshot" where
  "buildOutput sheetId d sheetsData =
     \<lparr>snapshot_meta =
        \<lparr>generated_at = toISOString d,
         source_sheet_id = sheetId,
         reporting_quarter = reportingQuarter d,
         reporting_year = getFullYear d,
         reporting_quarter_number = quarterNumber d,
         schema_version = js ''2.0''\<rparr>,
      snapshot_sheets =
        \<lparr>locations = elemAt sheetsData 0,
         yearly_funding = elemAt sheetsData 1,
         quarterly_funding = elemAt sheetsData 2,
         yearly_ev = elemAt sheetsData 3,
         top_industries_tags = elemAt sheetsData 4,
         top_rounds = elemAt sheetsData 5,
         regional_comparison = elemAt sheetsData 6\<rparr>,
      snapshot_config =
        \<lparr>map_enabled = False,
         share_preview_enabled = True,
         default_location_id = js ''london''\<rparr>\<rparr>"

text \<open>
  \<^verbatim>\<open>main\<close>: \<^verbatim>\<open>process.exit(1)\<close> when \<^verbatim>\<open>SHEET_ID\<close> is falsy (not set, or
  empty); inside the \<^verbatim>\<open>try\<close>, the fetches, the snapshot, the directory and the
  write; every exception ends in the \<^verbatim>\<open>catch\<close> with \<^verbatim>\<open>process.exit(1)\<close>.
  The console output is left out.
\<close>

definition failed :: "'n run" where
  "failed = \<lparr>exitStatus = 1, written = None\<rparr>"

definition main :: "'n env \<Rightarrow> 'n run" where
  "main e =
     (case SHEET_ID e of
        None \<Rightarrow> failed
      | Some sheetId \<Rightarrow>
          if sheetId = [] then failed
          else (case promiseAll (map (fetchSheetData (fetch e sheetId)) SHEET_NAMES) of
                  Inl err \<Rightarrow> failed
                | Inr sheetsData \<Rightarrow>
                    if \<not> publicDirExists e \<and> mkdirThrows e then failed
                    else if writeThrows e then failed
                    else \<lparr>exitStatus = 0,
                          written = Some (buildOutput sheetId (now e) sheetsData)\<rparr>))"


section \<open>Properties\<close>

declare digits.simps [simp del]

lemmas csv_eval =
  js_def parseCSV_def csvLines_def trim_def is_ws_def dquote_def comma_def newline_def
  creturn_def next_is_quote_def parseCSVRow_arg_def parseCSVRow_def elemAt_def hasData_def
  buildRow_def colStep_def dataLoop.simps

lemmas json_eval =
  extractTable_def validCols_def enumerate_eq_zip rowStep_def cellAt_def elemAt_def
  effective_def isEmpty_def keyOf_def objStep_def buildObj_def MAX_CONSECUTIVE_EMPTY_def
  trim_def is_ws_def js_def

subsection \<open>The end-to-end CSV example\<close>

text \<open>
  Claim C9. In CSV mode, the input with the header line \<^verbatim>\<open>Name,Value\<close>, the data row
  \<^verbatim>\<open>Foo,1\<close> and the blank data row \<^verbatim>\<open>,\<close> (with or without a newline at the end)
  gives exactly one Record, which maps \<^verbatim>\<open>Name\<close> to \<^verbatim>\<open>Foo\<close> and \<^verbatim>\<open>Value\<close> to
  \<^verbatim>\<open>1\<close>. The blank row is a line of its own, its two fields have no data, it
  yields no populated key, and no Record appears for it.
\<close>

theorem parseCSV_name_value_example:
  "parseCSV (js ''Name,Value\<newline>Foo,1\<newline>,'')
     = Inr [[(js ''Name'', js ''Foo''), (js ''Value'', js ''1'')]]
   \<and> parseCSV (js ''Name,Value\<newline>Foo,1\<newline>,\<newline>'')
     = Inr [[(js ''Name'', js ''Foo''), (js ''Value'', js ''1'')]]
   \<and> csvLines (js ''Name,Value\<newline>Foo,1\<newline>,'') = [js ''Name,Value'', js ''Foo,1'', js '','']
   \<and> \<not> hasData (parseCSVRow (js '',''))
   \<and> buildRow (parseCSVRow (js ''Name,Value'')) (parseCSVRow (js '','')) = ([], False)"
  by (simp add: csv_eval upt_conv_Cons)

subsection \<open>The reporting quarter\<close>

lemma digits_small: "n < 10 \<Longrightarrow> digits n = [of_nat (48 + n)]"
  by (subst digits.simps) simp

lemma digits_large: "\<not> n < 10 \<Longrightarrow> digits n = digits (n div 10) @ [of_nat (48 + n mod 10)]"
  by (subst digits.simps) simp

lemma digits_four:
  assumes "1000 \<le> n" "n \<le> 9999"
  shows "digits n = [of_nat (48 + n div 1000), of_nat (48 + n div 100 mod 10),
                     of_nat (48 + n div 10 mod 10), of_nat (48 + n mod 10)]"
proof -
  have e: "n div 10 div 10 = n div 100" "n div 100 div 10 = n div 1000"
    by (simp_all add: div_mult2_eq [symmetric])
  have "digits (n div 1000) = [of_nat (48 + n div 1000)]"
    using assms by (intro digits_small) auto
  moreover have "digits (n div 100) = digits (n div 1000) @ [of_nat (48 + n div 100 mod 10)]"
  proof -
    have "\<not> n div 100 < 10" using assms by auto
    from digits_large [OF this] show ?thesis by (simp only: e)
  qed
  moreover have "digits (n div 10) = digits (n div 100) @ [of_nat (48 + n div 10 mod 10)]"
  proof -
    have "\<not> n div 10 < 10" using assms by auto
    from digits_large [OF this] show ?thesis by (simp only: e)
  qed
  moreover have "digits n = digits (n div 10) @ [of_nat (48 + n mod 10)]"
    using assms by (intro digits_large) auto
  ultimately show ?thesis by simp
qed

lemma quarter_cases:
  assumes "getMonth d < 12"
  shows "quarterNumber d =
           (if getMonth d < 3 then 1 else if getMonth d < 6 then 2
            else if getMonth d < 9 then 3 else 4)"
proof -
  have "real (getMonth d) + 1 = of_int (int (getMonth d) + 1)" by simp
  then have "quarterNumber d = - (- (int (getMonth d) + 1) div 3)"
    unfolding quarterNumber_def
    by (metis ceiling_divide_eq_div of_int_numeral)
  then show ?thesis using assms by auto
qed

text \<open>
  Claim C6. For every date (a month index from 0 to 11, that is a month from 1 to 12,
  and any year), the quarter number is the ceiling of the 1-indexed month divided by 3:
  months 1 to 3 give 1, months 4 to 6 give 2, months 7 to 9 give 3 and months 10 to 12
  give 4. The label is the year, then \<^verbatim>\<open>Q\<close>, then the digit of the quarter number,
  and a year from 1000 to 9999 is written with its four decimal digits.
\<close>

theorem quarter_derivation:
  assumes "getMonth d < 12"
  shows "quarterNumber d = \<lceil>real (getMonth d + 1) / 3\<rceil>
       \<and> (getMonth d + 1 \<in> {1, 2, 3} \<longrightarrow> quarterNumber d = 1)
       \<and> (getMonth d + 1 \<in> {4, 5, 6} \<longrightarrow> quarterNumber d = 2)
       \<and> (getMonth d + 1 \<in> {7, 8, 9} \<longrightarrow> quarterNumber d = 3)
       \<and> (getMonth d + 1 \<in> {10, 11, 12} \<longrightarrow> quarterNumber d = 4)
       \<and> reportingQuarter d
           = numberToString (getFullYear d) @ js ''Q'' @ [of_nat (48 + nat (quarterNumber d))]
       \<and> (1000 \<le> getFullYear d \<and> getFullYear d \<le> 9999 \<longrightarrow>
            numberToString (getFullYear d)
              = (let y = nat (getFullYear d)
                 in [of_nat (48 + y div 1000), of_nat (48 + y div 100 mod 10),
                     of_nat (48 + y div 10 mod 10), of_nat (48 + y mod 10)]))"
proof -
  note q = quarter_cases [OF assms]
  have c1: "quarterNumber d = \<lceil>real (getMonth d + 1) / 3\<rceil>"
    by (simp add: quarterNumber_def add.commute)
  have c2: "getMonth d + 1 \<in> {1, 2, 3} \<longrightarrow> quarterNumber d = 1"
    using q by auto
  have c3: "getMonth d + 1 \<in> {4, 5, 6} \<longrightarrow> quarterNumber d = 2"
    using q by auto
  have c4: "getMonth d + 1 \<in> {7, 8, 9} \<longrightarrow> quarterNumber d = 3"
    using q by auto
  have c5: "getMonth d + 1 \<in> {10, 11, 12} \<longrightarrow> quarterNumber d = 4"
    using q by auto
  have range: "0 \<le> quarterNumber d" "nat (quarterNumber d) < 10"
    using q by (auto split: if_splits)
  have c6: "reportingQuarter d
           = numberToString (getFullYear d) @ js ''Q'' @ [of_nat (48 + nat (quarterNumber d))]"
    using range by (simp add: reportingQuarter_def numberToString_def digits_small)
  have c7: "1000 \<le> getFullYear d \<and> getFullYear d \<le> 9999 \<longrightarrow>
            numberToString (getFullYear d)
              = (let y = nat (getFullYear d)
                 in [of_nat (48 + y div 1000), of_nat (48 + y div 100 mod 10),
                     of_nat (48 + y div 10 mod 10), of_nat (48 + y mod 10)])"
  proof
    assume y: "1000 \<le> getFullYear d \<and> getFullYear d \<le> 9999"
    then have "1000 \<le> nat (getFullYear d)" "nat (getFullYear d) \<le> 9999" by auto
    from digits_four [OF this] y show "numberToString (getFullYear d)
              = (let y = nat (getFullYear d)
                 in [of_nat (48 + y div 1000), of_nat (48 + y div 100 mod 10),
                     of_nat (48 + y div 10 mod 10), of_nat (48 + y mod 10)])"
      by (simp add: numberToString_def Let_def)
  qed
  from c1 c2 c3 c4 c5 c6 c7 show ?thesis by blast
qed

theorem quarter_derivation_witness:
  "getMonth \<lparr>getFullYear = 2024, getMonth = 8, toISOString = js ''2024-09-15T00:00:00.000Z''\<rparr> < 12
   \<and> quarterNumber
        \<lparr>getFullYear = 2024, getMonth = 8, toISOString = js ''2024-09-15T00:00:00.000Z''\<rparr> = 3
   \<and> reportingQuarter
        \<lparr>getFullYear = 2024, getMonth = 8, toISOString = js ''2024-09-15T00:00:00.000Z''\<rparr>
       = js ''2024Q3''"
  using quarter_derivation
    [of "\<lparr>getFullYear = 2024, getMonth = 8, toISOString = js ''2024-09-15T00:00:00.000Z''\<rparr>"]
  by (simp add: js_def)

subsection \<open>The row loop of the JSON mode\<close>

lemma replicate_numeral_unfold:
  "replicate (numeral k) x = x # replicate (pred_numeral k) x"
  by (simp add: numeral_eq_Suc)

lemma rowsLoop_append:
  "rowsLoop vcs st (xs @ ys) =
     (case rowsLoop vcs st xs of Break s \<Rightarrow> Break s | Next s \<Rightarrow> rowsLoop vcs s ys)"
  by (induction xs arbitrary: st) (auto split: ctl.splits)

lemma rowStep_no_cells: "row_c r = None \<Longrightarrow> rowStep vcs st r = Next st"
  by (simp add: rowStep_def)

lemma rowStep_empty:
  assumes "row_c r = Some c" and "isEmpty (effective (cellAt c (index firstCol)))"
  shows "rowStep (firstCol # others) st r =
           (if MAX_CONSECUTIVE_EMPTY \<le> consecutiveEmpty st + 1
            then Break (st\<lparr>consecutiveEmpty := consecutiveEmpty st + 1\<rparr>)
            else Next (st\<lparr>consecutiveEmpty := consecutiveEmpty st + 1\<rparr>))"
  using assms by (simp add: rowStep_def Let_def)

lemma rowStep_data:
  assumes "row_c r = Some c" and "\<not> isEmpty (effective (cellAt c (index firstCol)))"
  shows "rowStep (firstCol # others) st r =
           Next \<lparr>consecutiveEmpty = 0, results = results st @ [buildObj (firstCol # others) c]\<rparr>"
  using assms by (simp add: rowStep_def)

lemma empty_run_below:
  assumes "\<forall>e\<in>set es. \<exists>c. row_c e = Some c \<and> isEmpty (effective (cellAt c (index firstCol)))"
    and "consecutiveEmpty st + length es < MAX_CONSECUTIVE_EMPTY"
  shows "rowsLoop (firstCol # others) st es =
           Next (st\<lparr>consecutiveEmpty := consecutiveEmpty st + length es\<rparr>)"
  using assms
proof (induction es arbitrary: st)
  case Nil
  then show ?case by simp
next
  case (Cons e es)
  from Cons.prems(1) obtain c where c: "row_c e = Some c"
    "isEmpty (effective (cellAt c (index firstCol)))" by auto
  from Cons.prems(2) have lt: "\<not> MAX_CONSECUTIVE_EMPTY \<le> consecutiveEmpty st + 1" by simp
  have step: "rowStep (firstCol # others) st e = Next (st\<lparr>consecutiveEmpty := consecutiveEmpty st + 1\<rparr>)"
    using rowStep_empty [OF c] lt by simp
  have "rowsLoop (firstCol # others) (st\<lparr>consecutiveEmpty := consecutiveEmpty st + 1\<rparr>) es =
          Next (st\<lparr>consecutiveEmpty := consecutiveEmpty st + 1 + length es\<rparr>)"
    using Cons.IH [of "st\<lparr>consecutiveEmpty := consecutiveEmpty st + 1\<rparr>"] Cons.prems by simp
  with step show ?case by simp
qed

lemma empty_run_breaks:
  assumes "\<forall>e\<in>set es. \<exists>c. row_c e = Some c \<and> isEmpty (effective (cellAt c (index firstCol)))"
    and "es \<noteq> []"
    and "MAX_CONSECUTIVE_EMPTY \<le> consecutiveEmpty st + length es"
  shows "\<exists>s. rowsLoop (firstCol # others) st (es @ rest) = Break s \<and> results s = results st"
  using assms
proof (induction es arbitrary: st)
  case Nil
  then show ?case by simp
next
  case (Cons e es)
  from Cons.prems(1) obtain c where c: "row_c e = Some c"
    "isEmpty (effective (cellAt c (index firstCol)))" by auto
  let ?st' = "st\<lparr>consecutiveEmpty := consecutiveEmpty st + 1\<rparr>"
  show ?case
  proof (cases "MAX_CONSECUTIVE_EMPTY \<le> consecutiveEmpty st + 1")
    case True
    then have "rowStep (firstCol # others) st e = Break ?st'"
      using rowStep_empty [OF c] by simp
    then show ?thesis by simp
  next
    case False
    then have step: "rowStep (firstCol # others) st e = Next ?st'"
      using rowStep_empty [OF c] by simp
    from False Cons.prems(3) have ne: "es \<noteq> []" by auto
    have "\<exists>s. rowsLoop (firstCol # others) ?st' (es @ rest) = Break s \<and> results s = results ?st'"
      using Cons.IH [of ?st'] Cons.prems ne by simp
    with step show ?thesis by simp
  qed
qed

lemma rowStep_results_prefix:
  "rowStep vcs (st\<lparr>results := xs @ results st\<rparr>) r =
     map_ctl (\<lambda>s. s\<lparr>results := xs @ results s\<rparr>) (rowStep vcs st r)"
  by (simp add: rowStep_def Let_def split: option.splits list.splits)

lemma rowsLoop_results_prefix:
  "rowsLoop vcs (st\<lparr>results := xs @ results st\<rparr>) rs =
     map_ctl (\<lambda>s. s\<lparr>results := xs @ results s\<rparr>) (rowsLoop vcs st rs)"
proof (induction rs arbitrary: st)
  case Nil
  then show ?case by simp
next
  case (Cons r rs)
  show ?case
  proof (cases "rowStep vcs st r")
    case (Next s)
    with Cons.IH [of s] show ?thesis by (simp add: rowStep_results_prefix)
  next
    case (Break s)
    then show ?thesis by (simp add: rowStep_results_prefix)
  qed
qed

lemma state_of_map_ctl: "state_of (map_ctl g x) = g (state_of x)"
  by (cases x) simp_all

lemma rowsLoop_from_results:
  "results (state_of (rowsLoop vcs \<lparr>consecutiveEmpty = n, results = xs\<rparr> rs)) =
     xs @ results (state_of (rowsLoop vcs \<lparr>consecutiveEmpty = n, results = []\<rparr> rs))"
  using rowsLoop_results_prefix [where vcs = vcs and st = "\<lparr>consecutiveEmpty = n, results = []\<rparr>" and xs = xs and rs = rs]
  by (simp add: state_of_map_ctl)

lemma rowsLoop_skip_no_cells:
  assumes "row_c r = None"
  shows "rowsLoop vcs st (before @ r # after) = rowsLoop vcs st (before @ after)"
  using assms by (simp add: rowsLoop_append rowStep_no_cells split: ctl.splits)

text \<open>
  Claim C1. In JSON mode, with a first valid column: a row whose first valid column's
  effective value is empty, \<^verbatim>\<open>null\<close> or \<^verbatim>\<open>undefined\<close> adds no Record and adds one
  to the consecutive-empty counter (and the loop stops when the counter reaches 10); a
  row with first-column data sets the counter to zero and appends its Record. At the
  threshold: 9 such empty rows followed by a row with first-column data give the Record
  of that row, followed by what the rest of the rows gives; 10 such empty rows, wherever
  they stand in the table, end the processing, so that the result is the one of the
  rows before them, whatever rows follow.
\<close>

theorem first_column_threshold:
  assumes "validCols cs = firstCol # others"
  shows "(row_c r = Some c \<and> isEmpty (effective (cellAt c (index firstCol))) \<longrightarrow>
            rowStep (validCols cs) st r =
              (if MAX_CONSECUTIVE_EMPTY \<le> consecutiveEmpty st + 1
               then Break (st\<lparr>consecutiveEmpty := consecutiveEmpty st + 1\<rparr>)
               else Next (st\<lparr>consecutiveEmpty := consecutiveEmpty st + 1\<rparr>)))
       \<and> (row_c r = Some c \<and> \<not> isEmpty (effective (cellAt c (index firstCol))) \<longrightarrow>
            rowStep (validCols cs) st r =
              Next \<lparr>consecutiveEmpty = 0, results = results st @ [buildObj (validCols cs) c]\<rparr>)
       \<and> (length es = 9
            \<and> (\<forall>e\<in>set es. \<exists>d. row_c e = Some d \<and> isEmpty (effective (cellAt d (index firstCol))))
            \<and> row_c r = Some c \<and> \<not> isEmpty (effective (cellAt c (index firstCol))) \<longrightarrow>
            extractTable \<lparr>cols = cs, rows = es @ r # rest\<rparr>
              = buildObj (validCols cs) c # extractTable \<lparr>cols = cs, rows = rest\<rparr>)
       \<and> (length es = 10
            \<and> (\<forall>e\<in>set es. \<exists>d. row_c e = Some d \<and> isEmpty (effective (cellAt d (index firstCol)))) \<longrightarrow>
            extractTable \<lparr>cols = cs, rows = before @ es @ rest\<rparr>
              = extractTable \<lparr>cols = cs, rows = before\<rparr>)"
proof -
  let ?vcs = "firstCol # others"
  let ?init = "\<lparr>consecutiveEmpty = 0, results = []\<rparr> :: 'a loop_state"
  let ?empty = "\<lambda>e. \<exists>d. row_c e = Some d \<and> isEmpty (effective (cellAt d (index firstCol)))"
  have ex: "extractTable \<lparr>cols = cs, rows = rs\<rparr> = results (state_of (rowsLoop ?vcs ?init rs))" for rs
    using assms by (simp add: extractTable_def)
  have a: "row_c r = Some c \<and> isEmpty (effective (cellAt c (index firstCol))) \<longrightarrow>
            rowStep (validCols cs) st r =
              (if MAX_CONSECUTIVE_EMPTY \<le> consecutiveEmpty st + 1
               then Break (st\<lparr>consecutiveEmpty := consecutiveEmpty st + 1\<rparr>)
               else Next (st\<lparr>consecutiveEmpty := consecutiveEmpty st + 1\<rparr>))"
    using rowStep_empty [of r c firstCol others st] assms by simp
  have b: "row_c r = Some c \<and> \<not> isEmpty (effective (cellAt c (index firstCol))) \<longrightarrow>
            rowStep (validCols cs) st r =
              Next \<lparr>consecutiveEmpty = 0, results = results st @ [buildObj (validCols cs) c]\<rparr>"
    using rowStep_data [of r c firstCol others st] assms by simp
  have c: "extractTable \<lparr>cols = cs, rows = es @ r # rest\<rparr>
              = buildObj (validCols cs) c # extractTable \<lparr>cols = cs, rows = rest\<rparr>"
    if len: "length es = 9" and es: "\<forall>e\<in>set es. ?empty e"
      and r: "row_c r = Some c" "\<not> isEmpty (effective (cellAt c (index firstCol)))"
  proof -
    have run: "rowsLoop ?vcs ?init es = Next (?init\<lparr>consecutiveEmpty := 9\<rparr>)"
      using empty_run_below [OF es, of ?init others] len
      by (simp add: MAX_CONSECUTIVE_EMPTY_def)
    have "rowsLoop ?vcs ?init (es @ r # rest) =
            rowsLoop ?vcs \<lparr>consecutiveEmpty = 0, results = [buildObj ?vcs c]\<rparr> rest"
      using run rowStep_data [OF r, of others "?init\<lparr>consecutiveEmpty := 9\<rparr>"]
      by (simp add: rowsLoop_append)
    then show ?thesis
      using rowsLoop_from_results [of ?vcs 0 "[buildObj ?vcs c]" rest] assms
      by (simp add: ex)
  qed
  have d: "extractTable \<lparr>cols = cs, rows = before @ es @ rest\<rparr>
              = extractTable \<lparr>cols = cs, rows = before\<rparr>"
    if len: "length es = 10" and es: "\<forall>e\<in>set es. ?empty e"
  proof (cases "rowsLoop ?vcs ?init before")
    case (Break s)
    then show ?thesis by (simp add: ex rowsLoop_append)
  next
    case (Next s)
    from len have "es \<noteq> []" "MAX_CONSECUTIVE_EMPTY \<le> consecutiveEmpty s + length es"
      by (auto simp: MAX_CONSECUTIVE_EMPTY_def)
    from empty_run_breaks [OF es this, of others rest]
    obtain s' where "rowsLoop ?vcs s (es @ rest) = Break s'" "results s' = results s"
      by blast
    with Next show ?thesis by (simp add: ex rowsLoop_append)
  qed
  from a b c d show ?thesis by blast
qed

theorem first_column_threshold_witness:
  "validCols [\<lparr>label = Some (js ''A'')\<rparr>] = [\<lparr>label = Some (js ''A''), index = 0\<rparr>]
   \<and> extractTable
       \<lparr>cols = [\<lparr>label = Some (js ''A'')\<rparr>],
        rows = replicate 9 \<lparr>row_c = Some [None :: int cell option]\<rparr>
                 @ [\<lparr>row_c = Some [Some \<lparr>cell_v = Str (js ''x''), cell_f = Undefined :: int jsval\<rparr>]\<rparr>]\<rparr>
      = [[(js ''A'', Str (js ''x''))]]
   \<and> extractTable
       \<lparr>cols = [\<lparr>label = Some (js ''A'')\<rparr>],
        rows = replicate 10 \<lparr>row_c = Some [None :: int cell option]\<rparr>
                 @ [\<lparr>row_c = Some [Some \<lparr>cell_v = Str (js ''x''), cell_f = Undefined :: int jsval\<rparr>]\<rparr>]\<rparr>
      = []"
  (is "?v \<and> ?nine \<and> ?ten")
proof -
  let ?A = "\<lparr>label = Some (js ''A'')\<rparr>"
  let ?fc = "\<lparr>label = Some (js ''A''), index = 0\<rparr>"
  let ?e = "\<lparr>row_c = Some [None]\<rparr> :: int row"
  let ?c = "[Some \<lparr>cell_v = Str (js ''x''), cell_f = Undefined :: int jsval\<rparr>] :: int cell option list"
  let ?r = "\<lparr>row_c = Some ?c\<rparr>"
  have v: "validCols [?A] = [?fc]"
    by (simp add: validCols_def enumerate_eq_zip trim_def is_ws_def js_def)
  have e: "isEmpty (effective (cellAt [None :: int cell option] (index ?fc)))"
    by (simp add: isEmpty_def effective_def cellAt_def elemAt_def)
  have r: "\<not> isEmpty (effective (cellAt ?c (index ?fc)))"
    by (simp add: isEmpty_def effective_def cellAt_def elemAt_def js_def)
  have obj: "buildObj [?fc] ?c = [(js ''A'', Str (js ''x''))]"
    by (simp add: buildObj_def objStep_def isEmpty_def effective_def cellAt_def elemAt_def
        keyOf_def js_def)
  have nil: "extractTable \<lparr>cols = [?A], rows = []\<rparr> = ([] :: int jsval jsobject list)"
    by (simp add: extractTable_def Let_def)
  have nine: ?nine
    using first_column_threshold [OF v, where es = "replicate 9 ?e" and r = ?r and c = ?c
        and rest = "[]", THEN conjunct2, THEN conjunct2, THEN conjunct1] v e r obj nil
    by simp
  have ten: ?ten
    using first_column_threshold [OF v, where es = "replicate 10 ?e" and before = "[]"
        and rest = "[?r]", THEN conjunct2, THEN conjunct2, THEN conjunct2] e nil
    by simp
  from v nine ten show ?thesis by blast
qed

text \<open>
  Claim C10. In JSON mode, a row whose cell array is missing, \<^verbatim>\<open>null\<close> or
  \<^verbatim>\<open>undefined\<close> leaves the loop state as it is: no Record, and the
  consecutive-empty counter neither incremented nor reset. The loop over any rows before
  and after it, and so the Sheet Result, are the same as without the row: it does not
  count toward the threshold and does not interrupt a run of empty rows around it.
\<close>

theorem rows_without_cells_skipped:
  assumes "row_c r = None"
  shows "rowStep vcs st r = Next st
       \<and> rowsLoop vcs st (before @ r # after) = rowsLoop vcs st (before @ after)
       \<and> extractTable \<lparr>cols = cs, rows = before @ r # after\<rparr>
           = extractTable \<lparr>cols = cs, rows = before @ after\<rparr>"
  using assms
  by (simp add: rowStep_no_cells rowsLoop_skip_no_cells extractTable_def Let_def)

theorem rows_without_cells_skipped_witness:
  "row_c \<lparr>row_c = None\<rparr> = None
   \<and> extractTable
       \<lparr>cols = [\<lparr>label = Some (js ''A'')\<rparr>],
        rows = replicate 5 \<lparr>row_c = Some [None]\<rparr> @ \<lparr>row_c = None\<rparr>
                 # replicate 5 \<lparr>row_c = Some [None]\<rparr>
                 @ [\<lparr>row_c = Some [Some \<lparr>cell_v = Str (js ''x''), cell_f = Undefined :: int jsval\<rparr>]\<rparr>]\<rparr>
      = []
   \<and> extractTable
       \<lparr>cols = [\<lparr>label = Some (js ''A'')\<rparr>],
        rows = replicate 5 \<lparr>row_c = Some [None]\<rparr> @ \<lparr>row_c = None\<rparr>
                 # replicate 4 \<lparr>row_c = Some [None]\<rparr>
                 @ [\<lparr>row_c = Some [Some \<lparr>cell_v = Str (js ''x''), cell_f = Undefined :: int jsval\<rparr>]\<rparr>]\<rparr>
      = [[(js ''A'', Str (js ''x''))]]"
  using rows_without_cells_skipped [of "\<lparr>row_c = None\<rparr>"]
  by (simp add: json_eval replicate_numeral_unfold)

subsection \<open>The run as a whole\<close>

lemma promiseAll_rejects:
  assumes "x \<in> set xs" and "g x = Inl err"
  shows "\<exists>err'. promiseAll (map g xs) = Inl err'"
  using assms by (induction xs) (auto split: sum.splits)

lemma promiseAll_fulfils:
  assumes "promiseAll (map g xs) = Inr ys"
  shows "length ys = length xs \<and> (\<forall>k<length xs. g (xs ! k) = Inr (ys ! k))"
  using assms
proof (induction xs arbitrary: ys)
  case Nil
  then show ?case by simp
next
  case (Cons x xs)
  from Cons.prems obtain y zs where y: "g x = Inr y" and zs: "promiseAll (map g xs) = Inr zs"
    and ys: "ys = y # zs"
    by (auto split: sum.splits)
  from Cons.IH [OF zs] have ih: "length zs = length xs" "\<forall>k<length xs. g (xs ! k) = Inr (zs ! k)"
    by simp_all
  show ?case
  proof (intro conjI allI impI)
    show "length ys = length (x # xs)" using ih ys by simp
  next
    fix k assume "k < length (x # xs)"
    then show "g ((x # xs) ! k) = Inr (ys ! k)"
      using y ih ys by (cases k) simp_all
  qed
qed

lemma fetchSheetData_fails:
  assumes "fch sheetName = Inr resp"
    and "\<not> ok resp \<or> body resp = NoWrapper \<or> body resp = BadJson"
  shows "\<exists>err. fetchSheetData fch sheetName = Inl err"
  using assms by (auto simp: fetchSheetData_def)

lemma fetchSheetData_succeeds:
  assumes "fetchSheetData fch sheetName = Inr sheet"
  shows "\<exists>resp t. fch sheetName = Inr resp \<and> ok resp \<and> body resp = Wrapped t
           \<and> sheet = extractTable t"
  using assms by (auto simp: fetchSheetData_def split: sum.splits if_splits payload.splits)

lemma main_written:
  assumes "written (main e) = Some out"
  shows "\<exists>sheetId sheetsData. SHEET_ID e = Some sheetId \<and> sheetId \<noteq> []
           \<and> promiseAll (map (fetchSheetData (fetch e sheetId)) SHEET_NAMES) = Inr sheetsData
           \<and> out = buildOutput sheetId (now e) sheetsData \<and> exitStatus (main e) = 0"
  using assms
  by (auto simp: main_def failed_def split: option.splits if_splits sum.splits)

lemma length_SHEET_NAMES: "length SHEET_NAMES = 7"
  by (simp add: SHEET_NAMES_def)

text \<open>
  Claim C7. When the fetch of one of the seven sheets fails (a response that is not ok,
  a text without the wrapper, or a wrapped text that does not parse), the run ends with
  exit status 1 and nothing is written. When a snapshot is written, the exit status is
  0, each of the seven sheets was fetched with an ok response and a parsed table, and
  the snapshot holds the seven extracted sheets in the order of the sheet names. A run
  with a non-zero exit status has written nothing.
\<close>

theorem no_partial_snapshot:
  "(name \<in> set SHEET_NAMES \<and> SHEET_ID e = Some sheetId \<and> fetch e sheetId name = Inr resp
      \<and> (\<not> ok resp \<or> body resp = NoWrapper \<or> body resp = BadJson) \<longrightarrow>
      exitStatus (main e) = 1 \<and> written (main e) = None)
   \<and> (written (main e) = Some out \<longrightarrow>
        exitStatus (main e) = 0
        \<and> (\<exists>sheetId sheetsData.
              SHEET_ID e = Some sheetId \<and> length sheetsData = 7
              \<and> (\<forall>k<7. \<exists>resp t. fetch e sheetId (SHEET_NAMES ! k) = Inr resp \<and> ok resp
                          \<and> body resp = Wrapped t \<and> sheetsData ! k = extractTable t)
              \<and> snapshot_sheets out =
                  \<lparr>locations = Some (sheetsData ! 0),
                   yearly_funding = Some (sheetsData ! 1),
                   quarterly_funding = Some (sheetsData ! 2),
                   yearly_ev = Some (sheetsData ! 3),
                   top_industries_tags = Some (sheetsData ! 4),
                   top_rounds = Some (sheetsData ! 5),
                   regional_comparison = Some (sheetsData ! 6)\<rparr>))
   \<and> (exitStatus (main e) \<noteq> 0 \<longrightarrow> exitStatus (main e) = 1 \<and> written (main e) = None)"
proof (intro conjI impI)
  assume a: "name \<in> set SHEET_NAMES \<and> SHEET_ID e = Some sheetId \<and> fetch e sheetId name = Inr resp
      \<and> (\<not> ok resp \<or> body resp = NoWrapper \<or> body resp = BadJson)"
  then obtain err where "fetchSheetData (fetch e sheetId) name = Inl err"
    using fetchSheetData_fails [of "fetch e sheetId" name resp] by blast
  with a obtain err' where
    "promiseAll (map (fetchSheetData (fetch e sheetId)) SHEET_NAMES) = Inl err'"
    using promiseAll_rejects [of name SHEET_NAMES "fetchSheetData (fetch e sheetId)" err] by blast
  with a show "exitStatus (main e) = 1" "written (main e) = None"
    by (simp_all add: main_def failed_def)
next
  assume w: "written (main e) = Some out"
  from main_written [OF w] obtain sheetId sheetsData where
    m: "SHEET_ID e = Some sheetId"
      "promiseAll (map (fetchSheetData (fetch e sheetId)) SHEET_NAMES) = Inr sheetsData"
      "out = buildOutput sheetId (now e) sheetsData" "exitStatus (main e) = 0"
    by blast
  from m(4) show "exitStatus (main e) = 0" .
  from promiseAll_fulfils [OF m(2)] have len: "length sheetsData = 7"
    and each: "\<forall>k<7. fetchSheetData (fetch e sheetId) (SHEET_NAMES ! k) = Inr (sheetsData ! k)"
    by (simp_all add: length_SHEET_NAMES)
  have resp: "\<forall>k<7. \<exists>resp t. fetch e sheetId (SHEET_NAMES ! k) = Inr resp \<and> ok resp
                          \<and> body resp = Wrapped t \<and> sheetsData ! k = extractTable t"
    using each fetchSheetData_succeeds by blast
  have sheets: "snapshot_sheets out =
                  \<lparr>locations = Some (sheetsData ! 0),
                   yearly_funding = Some (sheetsData ! 1),
                   quarterly_funding = Some (sheetsData ! 2),
                   yearly_ev = Some (sheetsData ! 3),
                   top_industries_tags = Some (sheetsData ! 4),
                   top_rounds = Some (sheetsData ! 5),
                   regional_comparison = Some (sheetsData ! 6)\<rparr>"
    using m(3) len by (simp add: buildOutput_def elemAt_def)
  from m(1) len resp sheets show "\<exists>sheetId sheetsData.
              SHEET_ID e = Some sheetId \<and> length sheetsData = 7
              \<and> (\<forall>k<7. \<exists>resp t. fetch e sheetId (SHEET_NAMES ! k) = Inr resp \<and> ok resp
                          \<and> body resp = Wrapped t \<and> sheetsData ! k = extractTable t)
              \<and> snapshot_sheets out =
                  \<lparr>locations = Some (sheetsData ! 0),
                   yearly_funding = Some (sheetsData ! 1),
                   quarterly_funding = Some (sheetsData ! 2),
                   yearly_ev = Some (sheetsData ! 3),
                   top_industries_tags = Some (sheetsData ! 4),
                   top_rounds = Some (sheetsData ! 5),
                   regional_comparison = Some (sheetsData ! 6)\<rparr>"
    by blast
next
  assume "exitStatus (main e) \<noteq> 0"
  then show "exitStatus (main e) = 1" "written (main e) = None"
    by (auto simp: main_def failed_def split: option.splits if_splits sum.splits)
qed

theorem no_partial_snapshot_witness:
  "js ''Top Rounds'' \<in> set SHEET_NAMES
   \<and> exitStatus (main
        \<lparr>SHEET_ID = Some (js ''sheet-1''),
         fetch = (\<lambda>sheetId name.
                    if name = js ''Top Rounds''
                    then Inr \<lparr>ok = False, statusText = js ''Not Found'', body = NoWrapper :: int payload\<rparr>
                    else Inr \<lparr>ok = True, statusText = js ''OK'',
                              body = Wrapped \<lparr>cols = [], rows = [] :: int row list\<rparr>\<rparr>),
         now = \<lparr>getFullYear = 2024, getMonth = 8, toISOString = js ''2024-09-15T00:00:00.000Z''\<rparr>,
         publicDirExists = True, mkdirThrows = False, writeThrows = False\<rparr>) = 1
   \<and> written (main
        \<lparr>SHEET_ID = Some (js ''sheet-1''),
         fetch = (\<lambda>sheetId name.
                    if name = js ''Top Rounds''
                    then Inr \<lparr>ok = False, statusText = js ''Not Found'', body = NoWrapper :: int payload\<rparr>
                    else Inr \<lparr>ok = True, statusText = js ''OK'',
                              body = Wrapped \<lparr>cols = [], rows = [] :: int row list\<rparr>\<rparr>),
         now = \<lparr>getFullYear = 2024, getMonth = 8, toISOString = js ''2024-09-15T00:00:00.000Z''\<rparr>,
         publicDirExists = True, mkdirThrows = False, writeThrows = False\<rparr>) = None
   \<and> written (main
        \<lparr>SHEET_ID = Some (js ''sheet-1''),
         fetch = (\<lambda>sheetId name.
                    Inr \<lparr>ok = True, statusText = js ''OK'',
                         body = Wrapped \<lparr>cols = [], rows = [] :: int row list\<rparr>\<rparr>),
         now = \<lparr>getFullYear = 2024, getMonth = 8, toISOString = js ''2024-09-15T00:00:00.000Z''\<rparr>,
         publicDirExists = True, mkdirThrows = False, writeThrows = False\<rparr>)
       = Some (buildOutput (js ''sheet-1'')
                \<lparr>getFullYear = 2024, getMonth = 8, toISOString = js ''2024-09-15T00:00:00.000Z''\<rparr>
                [[], [], [], [], [], [], []])
   \<and> exitStatus (main
        \<lparr>SHEET_ID = Some (js ''sheet-1''),
         fetch = (\<lambda>sheetId name.
                    Inr \<lparr>ok = True, statusText = js ''OK'',
                         body = Wrapped \<lparr>cols = [], rows = [] :: int row list\<rparr>\<rparr>),
         now = \<lparr>getFullYear = 2024, getMonth = 8, toISOString = js ''2024-09-15T00:00:00.000Z''\<rparr>,
         publicDirExists = True, mkdirThrows = False, writeThrows = False\<rparr>) = 0"
  (is "?m \<and> ?x1 \<and> ?w1 \<and> ?w2 \<and> ?x2")
proof -
  have m: ?m by (simp add: SHEET_NAMES_def js_def)
  have w2: ?w2
    by (simp add: main_def SHEET_NAMES_def fetchSheetData_def extractTable_def validCols_def js_def)
  have bad: "?x1 \<and> ?w1"
    using m no_partial_snapshot [where name = "js ''Top Rounds''" and sheetId = "js ''sheet-1''"
        and resp = "\<lparr>ok = False, statusText = js ''Not Found'', body = NoWrapper :: int payload\<rparr>"
        and e = "\<lparr>SHEET_ID = Some (js ''sheet-1''),
         fetch = (\<lambda>sheetId name.
                    if name = js ''Top Rounds''
                    then Inr \<lparr>ok = False, statusText = js ''Not Found'', body = NoWrapper :: int payload\<rparr>
                    else Inr \<lparr>ok = True, statusText = js ''OK'',
                              body = Wrapped \<lparr>cols = [], rows = [] :: int row list\<rparr>\<rparr>),
         now = \<lparr>getFullYear = 2024, getMonth = 8, toISOString = js ''2024-09-15T00:00:00.000Z''\<rparr>,
         publicDirExists = True, mkdirThrows = False, writeThrows = False\<rparr>",
        THEN conjunct1]
    by simp
  have x2: ?x2
    using w2 no_partial_snapshot [where e = "\<lparr>SHEET_ID = Some (js ''sheet-1''),
         fetch = (\<lambda>sheetId name.
                    Inr \<lparr>ok = True, statusText = js ''OK'',
                         body = Wrapped \<lparr>cols = [], rows = [] :: int row list\<rparr>\<rparr>),
         now = \<lparr>getFullYear = 2024, getMonth = 8, toISOString = js ''2024-09-15T00:00:00.000Z''\<rparr>,
         publicDirExists = True, mkdirThrows = False, writeThrows = False\<rparr>"
        and out = "buildOutput (js ''sheet-1'')
                \<lparr>getFullYear = 2024, getMonth = 8, toISOString = js ''2024-09-15T00:00:00.000Z''\<rparr>
                [[], [], [], [], [], [], []]"]
    by blast
  from m bad w2 x2 show ?thesis by blast
qed

subsection \<open>\<^verbatim>\<open>parseCSV\<close> returns\<close>

declare dataLoop.simps [simp del]

lemma dataLoop_returns: "\<exists>records. dataLoop lines headers i acc = Inr records"
proof (induction lines headers i acc rule: dataLoop.induct)
  case (1 lines headers i acc)
  show ?case
  proof (cases "i < length lines")
    case False
    then show ?thesis by (subst dataLoop.simps) simp
  next
    case True
    then have row: "parseCSVRow_arg (elemAt lines i) = Inr (parseCSVRow (lines ! i))"
      by (simp add: parseCSVRow_arg_def elemAt_def)
    show ?thesis
    proof (cases "hasData (parseCSVRow (lines ! i))")
      case False
      with "1.IH"(1) [OF True row] True row show ?thesis
        by (subst dataLoop.simps) simp
    next
      case hd: True
      obtain obj rowHasData where b: "buildRow headers (parseCSVRow (lines ! i)) = (obj, rowHasData)"
        by (cases "buildRow headers (parseCSVRow (lines ! i))")
      from "1.IH"(2) [OF True row _ b [symmetric]] hd True row b show ?thesis
        by (subst dataLoop.simps) simp
    qed
  qed
qed

lemma count_tl_le: "count_list (tl cs) x \<le> count_list cs x"
  by (cases cs) simp_all

lemma lineLoop_length:
  "length (fst (lineLoop cs lines currentLine inQuotes)) \<le> length lines + count_list cs newline"
proof (induction cs lines currentLine inQuotes rule: lineLoop.induct)
  case (1 lines currentLine inQuotes)
  then show ?case by simp
next
  case (2 c cs lines currentLine inQuotes)
  show ?case
  proof (cases "c = dquote")
    case True
    then have nl: "c \<noteq> newline" by (simp add: dquote_def newline_def)
    show ?thesis
    proof (cases "inQuotes \<and> next_is_quote cs")
      case esc: True
      have "length (fst (lineLoop (tl cs) lines (currentLine @ [dquote]) inQuotes))
              \<le> length lines + count_list (tl cs) newline"
        using "2.IH"(1) True esc by simp
      also have "\<dots> \<le> length lines + count_list cs newline"
        using count_tl_le [of cs newline] by simp
      finally show ?thesis using True esc nl by simp
    next
      case False
      with "2.IH"(2) True nl show ?thesis by auto
    qed
  next
    case False
    show ?thesis
    proof (cases "c = newline \<and> \<not> inQuotes")
      case True
      with "2.IH"(3) [OF False True] False show ?thesis by (auto split: if_splits)
    next
      case nn: False
      show ?thesis
      proof (cases "c = creturn \<and> \<not> inQuotes")
        case True
        then have "c \<noteq> newline" by (auto simp: creturn_def newline_def)
        with "2.IH"(4) [OF False nn True] False nn True show ?thesis by simp
      next
        case nc: False
        from "2.IH"(5) [OF False nn nc] False nn nc show ?thesis by auto
      qed
    qed
  qed
qed

lemma csvLines_length: "length (csvLines csvText) \<le> count_list csvText newline + 1"
proof -
  obtain lines currentLine where l: "lineLoop csvText [] [] False = (lines, currentLine)"
    by (cases "lineLoop csvText [] [] False")
  from lineLoop_length [of csvText "[]" "[]" False] l
  have "length lines \<le> count_list csvText newline" by simp
  with l show ?thesis by (simp add: csvLines_def)
qed

text \<open>
  Claim C8. For every input string \<^verbatim>\<open>parseCSV\<close> returns a sequence of Records and
  throws nothing: the tokenizing loop, the row splitter and the loop over the data rows
  end, and no row that is read is \<^verbatim>\<open>undefined\<close>. An input with fewer than 2
  non-blank lines returns the empty result. The text has at most one line more than it
  has newline characters, so an input without a newline, such as a header alone, returns
  the empty result.
\<close>

theorem parseCSV_never_throws:
  "(\<exists>records. parseCSV csvText = Inr records)
   \<and> (length (csvLines csvText) < 2 \<longrightarrow> parseCSV csvText = Inr [])
   \<and> length (csvLines csvText) \<le> count_list csvText newline + 1
   \<and> (newline \<notin> set csvText \<longrightarrow> parseCSV csvText = Inr [])"
proof (intro conjI impI)
  show "\<exists>records. parseCSV csvText = Inr records"
  proof (cases "length (csvLines csvText) < 2")
    case True
    then show ?thesis by (simp add: parseCSV_def)
  next
    case False
    then have "csvLines csvText \<noteq> []" by auto
    then have "parseCSVRow_arg (elemAt (csvLines csvText) 0) = Inr (parseCSVRow (csvLines csvText ! 0))"
      by (simp add: parseCSVRow_arg_def elemAt_def)
    with False dataLoop_returns [of "csvLines csvText" "parseCSVRow (csvLines csvText ! 0)" 1 "[]"]
    show ?thesis by (simp add: parseCSV_def Let_def)
  qed
next
  assume "length (csvLines csvText) < 2"
  then show "parseCSV csvText = Inr []" by (simp add: parseCSV_def)
next
  show "length (csvLines csvText) \<le> count_list csvText newline + 1"
    by (rule csvLines_length)
next
  assume "newline \<notin> set csvText"
  then have "count_list csvText newline = 0" by (simp add: count_list_0_iff)
  with csvLines_length [of csvText] have "length (csvLines csvText) < 2" by simp
  then show "parseCSV csvText = Inr []" by (simp add: parseCSV_def)
qed

theorem parseCSV_never_throws_witness:
  "newline \<notin> set (js ''Name,Value'')
   \<and> parseCSV (js ''Name,Value'') = Inr []
   \<and> length (csvLines (js ''Name,Value\<newline>'')) < 2
   \<and> parseCSV (js ''Name,Value\<newline>'') = Inr []
   \<and> length (csvLines ([dquote] @ js ''a,b\<newline>c,d'')) < 2
   \<and> parseCSV ([dquote] @ js ''a,b\<newline>c,d'') = Inr []"
  (is "?n \<and> ?a \<and> ?l1 \<and> ?b \<and> ?l2 \<and> ?c")
proof -
  have n: ?n by (simp add: js_def newline_def)
  have l1: ?l1 by (simp add: csv_eval)
  have l2: ?l2 by (simp add: csv_eval)
  from n parseCSV_never_throws [of "js ''Name,Value''"] have a: ?a by blast
  from l1 parseCSV_never_throws [of "js ''Name,Value\<newline>''"] have b: ?b by blast
  from l2 parseCSV_never_throws [of "[dquote] @ js ''a,b\<newline>c,d''"] have c: ?c by blast
  from n a l1 b l2 c show ?thesis by blast
qed

subsection \<open>Quote characters in the row splitter\<close>

lemma rowLoop_quotes:
  "2 * count_list (concat (rowLoop cs vals current inQuotes)) dquote
     \<le> 2 * count_list (concat vals) dquote + 2 * count_list current dquote
         + count_list cs dquote"
proof (induction cs vals current inQuotes rule: rowLoop.induct)
  case (1 vals current inQuotes)
  then show ?case by simp
next
  case (2 c cs vals current inQuotes)
  show ?case
  proof (cases "c = dquote")
    case True
    show ?thesis
    proof (cases "inQuotes \<and> next_is_quote cs")
      case esc: True
      then obtain cs' where cs: "cs = dquote # cs'"
        by (cases cs) (auto simp: next_is_quote_def)
      from "2.IH"(1) [OF True esc] True esc cs show ?thesis by simp
    next
      case False
      with "2.IH"(2) [OF True False] True show ?thesis by auto
    qed
  next
    case False
    show ?thesis
    proof (cases "c = comma \<and> \<not> inQuotes")
      case True
      with "2.IH"(3) [OF False True] False show ?thesis by simp
    next
      case nc: False
      from "2.IH"(4) [OF False nc] False nc show ?thesis by auto
    qed
  qed
qed

lemma rowLoop_inside_quotes:
  assumes "dquote \<notin> set s"
  shows "rowLoop (s @ rest) vals current True = rowLoop rest vals (current @ s) True"
  using assms by (induction s arbitrary: current) auto

lemma lineLoop_inside_quotes:
  assumes "dquote \<notin> set s"
  shows "lineLoop (s @ rest) lines current True = lineLoop rest lines (current @ s) True"
  using assms by (induction s arbitrary: current) auto

lemma trim_quoted: "trim (dquote # s @ [dquote]) = dquote # s @ [dquote]"
  by (simp add: trim_def is_ws_def dquote_def)

lemma csvLines_quoted:
  assumes "dquote \<notin> set s"
  shows "csvLines (dquote # s @ [dquote]) = [dquote # s @ [dquote]]"
proof -
  have "lineLoop (dquote # s @ [dquote]) [] [] False = lineLoop (s @ [dquote]) [] [dquote] True"
    by simp
  also have "\<dots> = lineLoop [dquote] [] (dquote # s) True"
    using lineLoop_inside_quotes [OF assms, of "[dquote]" "[]" "[dquote]"] by simp
  also have "\<dots> = ([], dquote # s @ [dquote])"
    by (simp add: next_is_quote_def)
  finally show ?thesis
    using trim_quoted [of s] by (simp add: csvLines_def)
qed

lemma parseCSVRow_quoted:
  assumes "dquote \<notin> set s"
  shows "parseCSVRow (dquote # s @ [dquote]) = [s]"
proof -
  have "parseCSVRow (dquote # s @ [dquote]) = rowLoop (s @ [dquote]) [] [] True"
    by (simp add: parseCSVRow_def)
  also have "\<dots> = rowLoop [dquote] [] s True"
    using rowLoop_inside_quotes [OF assms, of "[dquote]" "[]" "[]"] by simp
  also have "\<dots> = [s]"
    by (simp add: next_is_quote_def)
  finally show ?thesis .
qed

text \<open>
  Claim C3, as stated, at the line \<^verbatim>\<open>"a"\<close>: the tokenizer keeps the two quote
  characters in the line, and the row splitter puts neither of them into the field.
\<close>

theorem parseCSVRow_keeps_quotes_counterexample:
  "csvLines ([dquote] @ js ''a'' @ [dquote]) = [[dquote] @ js ''a'' @ [dquote]]
   \<and> parseCSVRow ([dquote] @ js ''a'' @ [dquote]) = [js ''a'']
   \<and> dquote \<notin> set (js ''a'')"
  by (simp add: csv_eval)

text \<open>
  Claim C3, amended. In CSV mode the row splitter strips quote characters: a quote that
  toggles the quoted state is not put into the field, and a doubled quote inside a
  quoted field is put into the field once. So for every line, the fields together hold
  at most half as many quote characters as the line. The two loops run the same quoting
  tests and differ in what they keep: of a text wrapped in two quotes, with no quote
  inside, the tokenizer makes one line that still has both quotes, and the row splitter
  makes of that line one field, the text between them, commas included.
\<close>

theorem parseCSVRow_strips_quotes:
  "2 * count_list (concat (parseCSVRow row)) dquote \<le> count_list row dquote
   \<and> (dquote \<notin> set s \<longrightarrow>
        csvLines (dquote # s @ [dquote]) = [dquote # s @ [dquote]]
        \<and> parseCSVRow (dquote # s @ [dquote]) = [s])"
proof
  show "2 * count_list (concat (parseCSVRow row)) dquote \<le> count_list row dquote"
    using rowLoop_quotes [of row "[]" "[]" False] by (simp add: parseCSVRow_def)
next
  show "dquote \<notin> set s \<longrightarrow>
        csvLines (dquote # s @ [dquote]) = [dquote # s @ [dquote]]
        \<and> parseCSVRow (dquote # s @ [dquote]) = [s]"
    using csvLines_quoted [of s] parseCSVRow_quoted [of s] by blast
qed

theorem parseCSVRow_strips_quotes_witness:
  "dquote \<notin> set (js ''a,b'')
   \<and> csvLines (dquote # js ''a,b'' @ [dquote]) = [dquote # js ''a,b'' @ [dquote]]
   \<and> parseCSVRow (dquote # js ''a,b'' @ [dquote]) = [js ''a,b'']
   \<and> 2 * count_list (concat (parseCSVRow (dquote # js ''a,b'' @ [dquote]))) dquote
       \<le> count_list (dquote # js ''a,b'' @ [dquote]) dquote"
proof -
  have n: "dquote \<notin> set (js ''a,b'')" by (simp add: js_def dquote_def)
  with parseCSVRow_strips_quotes [of "dquote # js ''a,b'' @ [dquote]" "js ''a,b''"]
  show ?thesis by blast
qed

subsection \<open>A doubled quote inside a quoted field\<close>

text \<open>
  Claim C4, on the code. The text with the header \<^verbatim>\<open>H\<close> and the quoted field
  \<^verbatim>\<open>"he said ""hi"""\<close> gives the value \<^verbatim>\<open>he said hi\<close>, without the quotes
  around \<^verbatim>\<open>hi\<close>: the tokenizer already turns each doubled quote into one quote, and
  the row splitter then reads these single quotes as the end and the start of a quoted
  part. The row splitter alone, on the field as the input has it, gives
  \<^verbatim>\<open>he said "hi"\<close>. The field \<^verbatim>\<open>"a,b"\<close> gives the single value \<^verbatim>\<open>a,b\<close>.
\<close>

theorem doubled_quote_unescaped_twice:
  "parseCSV (js ''H\<newline>'' @ [dquote] @ js ''he said '' @ [dquote, dquote] @ js ''hi''
        @ [dquote, dquote, dquote])
     = Inr [[(js ''H'', js ''he said hi'')]]
   \<and> csvLines (js ''H\<newline>'' @ [dquote] @ js ''he said '' @ [dquote, dquote] @ js ''hi''
        @ [dquote, dquote, dquote])
     = [js ''H'', [dquote] @ js ''he said '' @ [dquote] @ js ''hi'' @ [dquote, dquote]]
   \<and> parseCSVRow ([dquote] @ js ''he said '' @ [dquote] @ js ''hi'' @ [dquote, dquote])
     = [js ''he said hi'']
   \<and> parseCSVRow ([dquote] @ js ''he said '' @ [dquote, dquote] @ js ''hi''
        @ [dquote, dquote, dquote])
     = [js ''he said '' @ [dquote] @ js ''hi'' @ [dquote]]
   \<and> parseCSV (js ''H\<newline>'' @ [dquote] @ js ''a,b'' @ [dquote]) = Inr [[(js ''H'', js ''a,b'')]]"
  by (simp add: csv_eval upt_conv_Cons)

subsection \<open>Valid columns\<close>

text \<open>
  Claim C2, on the code. A column without a label is among the valid columns: its
  trimmed label is \<^verbatim>\<open>undefined\<close>, which is not the empty string. A table whose
  only column has no label does not give the empty result: the value of the column is
  stored under the key \<^verbatim>\<open>undefined\<close>.
\<close>

theorem unlabelled_column_is_valid:
  "validCols [\<lparr>label = None\<rparr>] = [\<lparr>label = None, index = 0\<rparr>]
   \<and> extractTable
       \<lparr>cols = [\<lparr>label = None\<rparr>],
        rows = [\<lparr>row_c = Some [Some \<lparr>cell_v = Str (js ''x''), cell_f = Undefined :: int jsval\<rparr>]\<rparr>]\<rparr>
      = [[(js ''undefined'', Str (js ''x''))]]"
  by (simp add: json_eval)

subsection \<open>No empty value in a Record\<close>

lemma set_update_cases:
  "(a, b) \<in> set (AList.update k v al) \<Longrightarrow> (a, b) = (k, v) \<or> (a, b) \<in> set al"
  by (induction al) (auto split: if_splits)

lemma colStep_entries:
  assumes "(k, v) \<in> set (fst (colStep headers vals j st))"
  shows "(k, v) \<in> set (fst st) \<or> (v \<noteq> [] \<and> (\<exists>field\<in>set vals. v = trim field))"
proof (cases "(k, v) \<in> set (fst st)")
  case True
  then show ?thesis by simp
next
  case False
  with assms obtain h where h: "map_option trim (elemAt headers j) = Some h" "h \<noteq> []"
    and val: "(case map_option trim (elemAt vals j) of None \<Rightarrow> [] | Some x \<Rightarrow> x) \<noteq> []"
    and kv: "(k, v) \<in> set (AList.update h (case map_option trim (elemAt vals j) of None \<Rightarrow> [] | Some x \<Rightarrow> x) (fst st))"
    by (auto simp: colStep_def Let_def split: option.splits if_splits)
  from set_update_cases [OF kv] False
  have v: "v = (case map_option trim (elemAt vals j) of None \<Rightarrow> [] | Some x \<Rightarrow> x)" by auto
  with val have "v \<noteq> []" by simp
  moreover from v val have "\<exists>field\<in>set vals. v = trim field"
    by (auto simp: elemAt_def split: option.splits if_splits)
  ultimately show ?thesis by simp
qed

lemma colLoop_entries:
  assumes "(k, v) \<in> set (fst (fold (colStep headers vals) [0..<n] st))"
  shows "(k, v) \<in> set (fst st) \<or> (v \<noteq> [] \<and> (\<exists>field\<in>set vals. v = trim field))"
  using assms
proof (induction n)
  case 0
  then show ?case by simp
next
  case (Suc n)
  from Suc.prems have "(k, v) \<in> set (fst (colStep headers vals n (fold (colStep headers vals) [0..<n] st)))"
    by simp
  from colStep_entries [OF this] Suc.IH show ?case by blast
qed

lemma buildRow_entries:
  assumes "(k, v) \<in> set (fst (buildRow headers vals))"
  shows "v \<noteq> [] \<and> (\<exists>field\<in>set vals. v = trim field)"
  using colLoop_entries [of k v headers vals "length headers" "([], False)"] assms
  by (simp add: buildRow_def)

lemma dataLoop_entries:
  assumes "dataLoop lines headers i acc = Inr records"
    and "obj \<in> set records"
  shows "obj \<in> set acc \<or> (\<exists>line\<in>set lines. obj = fst (buildRow headers (parseCSVRow line)))"
  using assms
proof (induction lines headers i acc rule: dataLoop.induct)
  case (1 lines headers i acc)
  show ?case
  proof (cases "i < length lines")
    case False
    with "1.prems" show ?thesis by (subst (asm) dataLoop.simps) auto
  next
    case True
    then have row: "parseCSVRow_arg (elemAt lines i) = Inr (parseCSVRow (lines ! i))"
      by (simp add: parseCSVRow_arg_def elemAt_def)
    from True have mem: "lines ! i \<in> set lines" by simp
    show ?thesis
    proof (cases "hasData (parseCSVRow (lines ! i))")
      case False
      from "1.prems"(1) True row False
      have "dataLoop lines headers (i + 1) acc = Inr records"
        by (subst (asm) dataLoop.simps) simp
      from "1.IH"(1) [OF True row _ this "1.prems"(2)] False show ?thesis by simp
    next
      case hd: True
      obtain o' rowHasData where b: "buildRow headers (parseCSVRow (lines ! i)) = (o', rowHasData)"
        by (cases "buildRow headers (parseCSVRow (lines ! i))")
      from "1.prems"(1) True row hd b
      have "dataLoop lines headers (i + 1) (if rowHasData then acc @ [o'] else acc) = Inr records"
        by (subst (asm) dataLoop.simps) simp
      from "1.IH"(2) [OF True row _ b [symmetric] this "1.prems"(2)] hd
      have "obj \<in> set (if rowHasData then acc @ [o'] else acc)
              \<or> (\<exists>line\<in>set lines. obj = fst (buildRow headers (parseCSVRow line)))"
        by simp
      moreover from b have "o' = fst (buildRow headers (parseCSVRow (lines ! i)))" by simp
      ultimately show ?thesis using mem by (cases rowHasData) auto
    qed
  qed
qed

lemma parseCSV_entries:
  assumes "parseCSV csvText = Inr records" and "obj \<in> set records" and "(k, v) \<in> set obj"
  shows "v \<noteq> [] \<and> (\<exists>line\<in>set (csvLines csvText). \<exists>field\<in>set (parseCSVRow line). v = trim field)"
proof (cases "length (csvLines csvText) < 2")
  case True
  with assms show ?thesis by (simp add: parseCSV_def)
next
  case False
  then have "csvLines csvText \<noteq> []" by auto
  then have "parseCSVRow_arg (elemAt (csvLines csvText) 0) = Inr (parseCSVRow (csvLines csvText ! 0))"
    by (simp add: parseCSVRow_arg_def elemAt_def)
  with assms(1) False
  have "dataLoop (csvLines csvText) (parseCSVRow (csvLines csvText ! 0)) 1 [] = Inr records"
    by (simp add: parseCSV_def Let_def)
  from dataLoop_entries [OF this assms(2)] obtain line where
    line: "line \<in> set (csvLines csvText)"
      "obj = fst (buildRow (parseCSVRow (csvLines csvText ! 0)) (parseCSVRow line))"
    by auto
  from buildRow_entries [of k v "parseCSVRow (csvLines csvText ! 0)" "parseCSVRow line"] assms(3) line
  show ?thesis by blast
qed

lemma objLoop_entries:
  assumes "(k, v) \<in> set (fold (objStep c) vcs obj)"
  shows "(k, v) \<in> set obj \<or> (\<not> isEmpty v \<and> (\<exists>col\<in>set vcs. v = effective (cellAt c (index col))))"
  using assms
proof (induction vcs arbitrary: obj)
  case Nil
  then show ?case by simp
next
  case (Cons col vcs)
  from Cons.prems have "(k, v) \<in> set (fold (objStep c) vcs (objStep c col obj))" by simp
  from Cons.IH [OF this] show ?case
  proof
    assume "(k, v) \<in> set (objStep c col obj)"
    then have "(k, v) \<in> set obj \<or> (\<not> isEmpty v \<and> v = effective (cellAt c (index col)))"
      by (auto simp: objStep_def Let_def split: if_splits dest: set_update_cases)
    then show ?thesis by auto
  next
    assume "\<not> isEmpty v \<and> (\<exists>col\<in>set vcs. v = effective (cellAt c (index col)))"
    then show ?thesis by auto
  qed
qed

lemma buildObj_entries:
  assumes "(k, v) \<in> set (buildObj vcs c)"
  shows "\<not> isEmpty v \<and> (\<exists>col\<in>set vcs. v = effective (cellAt c (index col)))"
  using objLoop_entries [of k v c vcs "[]"] assms by (simp add: buildObj_def)

lemma rowStep_records:
  assumes "obj \<in> set (results (state_of (rowStep vcs st r)))"
  shows "obj \<in> set (results st) \<or> (\<exists>c. row_c r = Some c \<and> obj = buildObj vcs c)"
  using assms
  by (auto simp: rowStep_def Let_def split: option.splits list.splits if_splits)

lemma rowsLoop_records:
  assumes "obj \<in> set (results (state_of (rowsLoop vcs st rs)))"
  shows "obj \<in> set (results st) \<or> (\<exists>r\<in>set rs. \<exists>c. row_c r = Some c \<and> obj = buildObj vcs c)"
  using assms
proof (induction rs arbitrary: st)
  case Nil
  then show ?case by simp
next
  case (Cons r rs)
  show ?case
  proof (cases "rowStep vcs st r")
    case (Break s)
    with Cons.prems have "obj \<in> set (results (state_of (rowStep vcs st r)))" by simp
    from rowStep_records [OF this] show ?thesis by auto
  next
    case (Next s)
    with Cons.prems have "obj \<in> set (results (state_of (rowsLoop vcs s rs)))" by simp
    from Cons.IH [OF this] show ?thesis
    proof
      assume "obj \<in> set (results s)"
      with Next have "obj \<in> set (results (state_of (rowStep vcs st r)))" by simp
      from rowStep_records [OF this] show ?thesis by auto
    next
      assume "\<exists>r\<in>set rs. \<exists>c. row_c r = Some c \<and> obj = buildObj vcs c"
      then show ?thesis by auto
    qed
  qed
qed

lemma validCols_index: "col \<in> set (validCols cs) \<Longrightarrow> index col < length cs"
  by (auto simp: validCols_def enumerate_eq_zip in_set_zip)

lemma extractTable_entries:
  assumes "obj \<in> set (extractTable t)" and "(k, v) \<in> set obj"
  shows "\<not> isEmpty v \<and> (\<exists>r\<in>set (rows t). \<exists>c i. row_c r = Some c \<and> i < length (cols t)
           \<and> v = effective (cellAt c i))"
proof -
  from assms(1) have "obj \<in> set (results (state_of
      (rowsLoop (validCols (cols t)) \<lparr>consecutiveEmpty = 0, results = []\<rparr> (rows t))))"
    by (auto simp: extractTable_def Let_def split: if_splits)
  from rowsLoop_records [OF this] obtain r c where
    r: "r \<in> set (rows t)" "row_c r = Some c" "obj = buildObj (validCols (cols t)) c"
    by auto
  from buildObj_entries [of k v "validCols (cols t)" c] assms(2) r(3)
  obtain col where "\<not> isEmpty v" "col \<in> set (validCols (cols t))"
    "v = effective (cellAt c (index col))" by blast
  with r validCols_index [of col "cols t"] show ?thesis by blast
qed

text \<open>
  Claim C5, as stated, on the earlier extractor of the JSON export path: a labelled
  column whose cell is \<^verbatim>\<open>null\<close> is stored with the empty string as its value.
\<close>

theorem legacy_record_has_empty_value_counterexample:
  "extractTable_legacy
     \<lparr>cols = [\<lparr>label = Some (js ''A'')\<rparr>], rows = [\<lparr>row_c = Some [None :: int cell option]\<rparr>]\<rparr>
   = Inr [[(js ''A'', Str [])]]"
  by (simp add: extractTable_legacy_def legacyHeaders_def legacyRow_def legacyStep_def
      legacyValue_def enumerate_eq_zip elemAt_def js_def)

text \<open>
  Claim C5, amended. For every Sheet Result of the CSV extractor and of the JSON
  extractor of \<^verbatim>\<open>src/scripts/build-report-data.ts\<close>, no Record has a key whose value
  is the empty string, \<^verbatim>\<open>null\<close> or \<^verbatim>\<open>undefined\<close>, and every value came from a
  non-empty source cell: in CSV mode it is the trimmed text of a non-empty field of a
  line of the input, in JSON mode it is the effective value of a cell of a row of the
  table, in one of the table's columns. (The earlier extractor of the JSON export path
  is left out: it stores the empty string for an empty cell.)
\<close>

theorem record_values_nonempty:
  "(parseCSV csvText = Inr records \<longrightarrow>
      (\<forall>obj\<in>set records. \<forall>(k, v)\<in>set obj.
         v \<noteq> [] \<and> (\<exists>line\<in>set (csvLines csvText). \<exists>field\<in>set (parseCSVRow line).
                      field \<noteq> [] \<and> v = trim field)))
   \<and> (\<forall>obj\<in>set (extractTable t). \<forall>(k, v)\<in>set obj.
         v \<noteq> Str [] \<and> v \<noteq> Null \<and> v \<noteq> Undefined
         \<and> (\<exists>r\<in>set (rows t). \<exists>c i. row_c r = Some c \<and> i < length (cols t)
               \<and> v = effective (cellAt c i)))"
proof (intro conjI impI ballI)
  fix obj kv
  assume p: "parseCSV csvText = Inr records" "obj \<in> set records" "kv \<in> set obj"
  obtain k v where kv: "kv = (k, v)" by (cases kv)
  from parseCSV_entries [OF p(1,2), of k v] p(3) kv
  have "v \<noteq> []" and "\<exists>line\<in>set (csvLines csvText). \<exists>field\<in>set (parseCSVRow line). v = trim field"
    by auto
  then obtain line field where lf: "line \<in> set (csvLines csvText)" "field \<in> set (parseCSVRow line)"
    "v = trim field" by blast
  with \<open>v \<noteq> []\<close> have "field \<noteq> []" by (auto simp: trim_def)
  with lf \<open>v \<noteq> []\<close> kv
  show "case kv of (k, v) \<Rightarrow> v \<noteq> [] \<and> (\<exists>line\<in>set (csvLines csvText). \<exists>field\<in>set (parseCSVRow line).
                      field \<noteq> [] \<and> v = trim field)"
    by auto
next
  fix obj kv
  assume p: "obj \<in> set (extractTable t)" "kv \<in> set obj"
  obtain k v where kv: "kv = (k, v)" by (cases kv)
  from extractTable_entries [OF p(1), of k v] p(2) kv
  show "case kv of (k, v) \<Rightarrow> v \<noteq> Str [] \<and> v \<noteq> Null \<and> v \<noteq> Undefined
         \<and> (\<exists>r\<in>set (rows t). \<exists>c i. row_c r = Some c \<and> i < length (cols t)
               \<and> v = effective (cellAt c i))"
    by (auto simp: isEmpty_def)
qed

theorem record_values_nonempty_witness:
  "parseCSV (js ''A\<newline>x'') = Inr [[(js ''A'', js ''x'')]]
   \<and> js ''x'' \<noteq> []
   \<and> extractTable
       \<lparr>cols = [\<lparr>label = Some (js ''A'')\<rparr>],
        rows = [\<lparr>row_c = Some [Some \<lparr>cell_v = Str (js ''x''), cell_f = Undefined :: int jsval\<rparr>]\<rparr>]\<rparr>
      = [[(js ''A'', Str (js ''x''))]]
   \<and> Str (js ''x'') \<noteq> (Null :: int jsval)"
  (is "?p \<and> ?a \<and> ?e \<and> ?b")
proof -
  have p: ?p by (simp add: csv_eval upt_conv_Cons)
  have e: ?e by (simp add: json_eval)
  note t = record_values_nonempty [of "js ''A\<newline>x''" "[[(js ''A'', js ''x'')]]"
      "\<lparr>cols = [\<lparr>label = Some (js ''A'')\<rparr>],
        rows = [\<lparr>row_c = Some [Some \<lparr>cell_v = Str (js ''x''), cell_f = Undefined :: int jsval\<rparr>]\<rparr>]\<rparr>"]
  from t p have a: ?a by auto
  from t e have b: ?b by auto
  from p a e b show ?thesis by blast
qed

end
